theory Spec2Isabelle
  imports Main
begin

section \<open>Type expressions (module TExp, consumed by the substitution ADT)\<close>

text \<open>
  Modelled from the spec: the module \<^verbatim>\<open>./TExp\<close> that declares the type expressions and
  their predicates is imported by \<^verbatim>\<open>L5-substitution-adt.ts\<close> but is not among the
  sources. The spec gives three variants: Atomic(name), Variable(name) with identity by
  name equality, and Procedure(params, returnType). TypeScript does not stop a value
  of another shape from reaching the functions (both \<^verbatim>\<open>checkNoOccurrence\<close> and
  \<^verbatim>\<open>applySub\<close> end in a branch for it), so the model has two more constructors that
  are none of the three variants: \<open>OtherTExp tag\<close>, an object with another tag, and
  \<open>UndefinedTExp\<close>, the value JavaScript yields when an array is read past its end.
\<close>

datatype TVar = makeTVar (var: string)

datatype TExp =
    AtomicTExp string
  | TVarTExp TVar
  | ProcTExp "TExp list" TExp
  | OtherTExp string
  | UndefinedTExp

text \<open>
  Modelled from the spec: the three predicates of \<^verbatim>\<open>./TExp\<close>, as total tests of the
  variant; they answer no on the two values that are none of the three variants.
\<close>

fun isAtomicTExp :: "TExp \<Rightarrow> bool" where
  "isAtomicTExp (AtomicTExp a) = True"
| "isAtomicTExp e = False"

fun isTVar :: "TExp \<Rightarrow> bool" where
  "isTVar (TVarTExp v) = True"
| "isTVar e = False"

fun isProcTExp :: "TExp \<Rightarrow> bool" where
  "isProcTExp (ProcTExp ps r) = True"
| "isProcTExp e = False"

text \<open>Modelled from the spec: \<^verbatim>\<open>eqTVar\<close> compares two variables by name.\<close>

definition eqTVar :: "TVar \<Rightarrow> TVar \<Rightarrow> bool" where
  "eqTVar tv1 tv2 = (var tv1 = var tv2)"

section \<open>Results and lists (modules shared/result and shared/list)\<close>

text \<open>
  A \<^verbatim>\<open>Result<T>\<close> is \<open>error + T\<close>: \<open>Inl\<close> is a Failure, \<open>Inr\<close> is an Ok. The two
  failure messages of the source are built from the values they mention, so the error
  carries those values: the occurs-check failure names the variable and the whole
  expression it was checked against, the bad-expression failure names the offending
  sub-expression and the whole expression.
\<close>

datatype error =
    OccurCheckError TVar TExp
  | BadTypeExpression TExp TExp

abbreviation makeOk :: "'a \<Rightarrow> error + 'a" where
  "makeOk \<equiv> Inr"

abbreviation makeFailure :: "error \<Rightarrow> error + 'a" where
  "makeFailure \<equiv> Inl"

text \<open>
  Modelled from the spec: \<^verbatim>\<open>bind\<close> and \<^verbatim>\<open>mapResult\<close> of shared/result are not among
  the sources. \<open>bindResult\<close> passes a failure on and otherwise continues with the value;
  \<open>mapResult\<close> applies a fallible function from left to right and stops at the first
  failure, as the spec's occurs-check requires (short-circuit, left to right).
\<close>

definition bindResult :: "error + 'a \<Rightarrow> ('a \<Rightarrow> error + 'b) \<Rightarrow> error + 'b" where
  "bindResult r f = (case r of Inl e \<Rightarrow> Inl e | Inr x \<Rightarrow> f x)"

fun mapResult :: "('a \<Rightarrow> error + 'b) \<Rightarrow> 'a list \<Rightarrow> error + 'b list" where
  "mapResult f [] = makeOk []"
| "mapResult f (x # xs) =
     bindResult (f x) (\<lambda>fst. bindResult (mapResult f xs) (\<lambda>rst. makeOk (fst # rst)))"

text \<open>
  Modelled from the spec: \<^verbatim>\<open>isEmpty\<close>, \<^verbatim>\<open>first\<close> and \<^verbatim>\<open>rest\<close> of shared/list.
  On an empty array JavaScript gives \<^verbatim>\<open>undefined\<close> for the first element and the empty
  array for the rest. The source takes \<^verbatim>\<open>first\<close> and \<^verbatim>\<open>rest\<close> of a variable sequence only
  after testing that it is not empty, which the functions below write as patterns
  \<open>[]\<close> and \<open>v # vs\<close>; the expression sequence is read without such a test, so \<open>first\<close>
  is the function on expression sequences and yields \<open>UndefinedTExp\<close> on the empty one.
\<close>

definition isEmpty :: "'a list \<Rightarrow> bool" where
  "isEmpty xs = (xs = [])"

fun first :: "TExp list \<Rightarrow> TExp" where
  "first [] = UndefinedTExp"
| "first (x # xs) = x"

fun rest :: "'a list \<Rightarrow> 'a list" where
  "rest [] = []"
| "rest (x # xs) = xs"

lemma bindResult_simps [simp]:
  "bindResult (Inl e) f = Inl e"
  "bindResult (Inr x) f = f x"
  by (simp_all add: bindResult_def)

lemma bindResult_cong [fundef_cong]:
  "r = r' \<Longrightarrow> (\<And>x. r' = Inr x \<Longrightarrow> f x = g x) \<Longrightarrow> bindResult r f = bindResult r' g"
  by (cases r') simp_all

lemma mapResult_cong [fundef_cong]:
  "xs = ys \<Longrightarrow> (\<And>x. x \<in> set ys \<Longrightarrow> f x = g x) \<Longrightarrow> mapResult f xs = mapResult g ys"
  by (induction ys arbitrary: xs) auto

section \<open>The substitution ADT (L5-substitution-adt.ts)\<close>

text \<open>
  The interface \<^verbatim>\<open>Sub\<close>: two sequences, not forced to have the same length. Its \<^verbatim>\<open>tag\<close>
  field is the constant "Sub", so \<^verbatim>\<open>isSub\<close> holds of every value of the type.
\<close>

record Sub =
  vars :: "TVar list"
  tes :: "TExp list"

definition makeEmptySub :: Sub where
  "makeEmptySub = \<lparr>vars = [], tes = []\<rparr>"

text \<open>
  \<open>check\<close> is the local function of \<^verbatim>\<open>checkNoOccurrence\<close>; the variable \<open>tvar\<close> and the
  whole expression \<open>te\<close> of the enclosing call are its first two arguments. The order of
  the tests is the source's: variable, atomic, procedure, anything else.
\<close>

fun check :: "TVar \<Rightarrow> TExp \<Rightarrow> TExp \<Rightarrow> error + bool" where
  "check tvar te (TVarTExp e) =
     (if var e = var tvar then makeFailure (OccurCheckError tvar te) else makeOk True)"
| "check tvar te (AtomicTExp a) = makeOk True"
| "check tvar te (ProcTExp ps r) =
     bindResult (mapResult (check tvar te) ps) (\<lambda>_. check tvar te r)"
| "check tvar te e = makeFailure (BadTypeExpression e te)"

definition checkNoOccurrence :: "TVar \<Rightarrow> TExp \<Rightarrow> error + bool" where
  "checkNoOccurrence tvar te = check tvar te te"

fun checkNoOccurrences :: "TVar list \<Rightarrow> TExp list \<Rightarrow> error + bool" where
  "checkNoOccurrences [] ts = makeOk True"
| "checkNoOccurrences (v # vs) ts =
     bindResult (checkNoOccurrence v (first ts)) (\<lambda>_. checkNoOccurrences vs (rest ts))"

definition makeSub :: "TVar list \<Rightarrow> TExp list \<Rightarrow> error + Sub" where
  "makeSub vs ts = bindResult (checkNoOccurrences vs ts) (\<lambda>_. makeOk \<lparr>vars = vs, tes = ts\<rparr>)"

definition isEmptySub :: "Sub \<Rightarrow> bool" where
  "isEmptySub sub = (isEmpty (vars sub) \<and> isEmpty (tes sub))"

text \<open>\<open>lookup\<close> is the local function of \<^verbatim>\<open>subGet\<close>, with the variable looked up first.\<close>

fun lookup :: "TVar \<Rightarrow> TVar list \<Rightarrow> TExp list \<Rightarrow> TExp" where
  "lookup v [] ts = TVarTExp v"
| "lookup v (x # xs) ts = (if eqTVar x v then first ts else lookup v xs (rest ts))"

definition subGet :: "Sub \<Rightarrow> TVar \<Rightarrow> TExp" where
  "subGet sub v = lookup v (vars sub) (tes sub)"

fun applySub :: "Sub \<Rightarrow> TExp \<Rightarrow> TExp" where
  "applySub sub te =
     (if isEmptySub sub then te
      else case te of
        AtomicTExp a \<Rightarrow> te
      | TVarTExp v \<Rightarrow> subGet sub v
      | ProcTExp ps r \<Rightarrow> ProcTExp (map (applySub sub) ps) (applySub sub r)
      | _ \<Rightarrow> te)"

declare applySub.simps [simp del]

definition extendSub :: "Sub \<Rightarrow> TVar \<Rightarrow> TExp \<Rightarrow> error + Sub" where
  "extendSub sub v te =
     bindResult (makeSub [v] [te]) (\<lambda>sub2.
       let updatedTEs = map (applySub sub2) (tes sub)
       in if var v \<in> set (map var (vars sub))
          then makeSub (vars sub) updatedTEs
          else makeSub ([v] @ vars sub) ([te] @ updatedTEs))"

fun combine :: "Sub \<Rightarrow> TVar list \<Rightarrow> TExp list \<Rightarrow> error + Sub" where
  "combine sub [] ts = makeOk sub"
| "combine sub (v # vs) ts =
     bindResult (extendSub sub v (first ts)) (\<lambda>extSub. combine extSub vs (rest ts))"

definition combineSub :: "Sub \<Rightarrow> Sub \<Rightarrow> error + Sub" where
  "combineSub sub1 sub2 =
     (if isEmptySub sub1 then makeOk sub2
      else if isEmptySub sub2 then makeOk sub1
      else combine sub1 (vars sub2) (tes sub2))"

section \<open>Notions of the specification\<close>

text \<open>
  The spec speaks of a variable occurring free in an expression and of well-formed
  expressions; these two definitions follow the spec's words. A variable occurs in an
  expression when a variable of the same name is one of its leaves; an expression is
  well-formed when it is built from the three variants only.
\<close>

fun occursIn :: "TVar \<Rightarrow> TExp \<Rightarrow> bool" where
  "occursIn v (TVarTExp x) = (var x = var v)"
| "occursIn v (ProcTExp ps r) = ((\<exists>p \<in> set ps. occursIn v p) \<or> occursIn v r)"
| "occursIn v e = False"

fun wfTExp :: "TExp \<Rightarrow> bool" where
  "wfTExp (AtomicTExp a) = True"
| "wfTExp (TVarTExp x) = True"
| "wfTExp (ProcTExp ps r) = ((\<forall>p \<in> set ps. wfTExp p) \<and> wfTExp r)"
| "wfTExp e = False"

text \<open>
  A substitution is idempotent in the syntactic sense when no variable it binds occurs
  in any of its expressions; this is what the spec calls self-consistent (applying it
  once is applying it to a fixed point).
\<close>

definition idempotentSub :: "Sub \<Rightarrow> bool" where
  "idempotentSub sub = (\<forall>x \<in> set (vars sub). \<forall>t \<in> set (tes sub). \<not> occursIn x t)"

text \<open>
  A weaker condition on the stored order: no variable occurs in the expression of a
  binding stored before its own.
\<close>

fun noForwardOccurrence :: "TVar list \<Rightarrow> TExp list \<Rightarrow> bool" where
  "noForwardOccurrence [] ts = True"
| "noForwardOccurrence (v # vs) ts =
     ((\<forall>x \<in> set vs. \<not> occursIn x (first ts)) \<and> noForwardOccurrence vs (rest ts))"

text \<open>The depth of an expression tree: the number of nested procedure types.\<close>

fun depthTExp :: "TExp \<Rightarrow> nat" where
  "depthTExp (ProcTExp ps r) = Suc (max (Max (set (0 # map depthTExp ps))) (depthTExp r))"
| "depthTExp e = 0"

section \<open>Basic facts about application and lookup\<close>

lemma isEmptySub_simps [simp]:
  "isEmptySub \<lparr>vars = vs, tes = ts\<rparr> = (vs = [] \<and> ts = [])"
  by (simp add: isEmptySub_def isEmpty_def)

lemma applySub_empty: "isEmptySub sub \<Longrightarrow> applySub sub te = te"
  by (simp add: applySub.simps)

lemma applySub_Atomic [simp]: "applySub sub (AtomicTExp a) = AtomicTExp a"
  by (simp add: applySub.simps)

lemma applySub_Other [simp]: "applySub sub (OtherTExp s) = OtherTExp s"
  by (simp add: applySub.simps)

lemma applySub_Undefined [simp]: "applySub sub UndefinedTExp = UndefinedTExp"
  by (simp add: applySub.simps)

lemma subGet_empty: "isEmptySub sub \<Longrightarrow> subGet sub v = TVarTExp v"
  by (simp add: subGet_def isEmptySub_def isEmpty_def)

lemma applySub_TVar [simp]: "applySub sub (TVarTExp v) = subGet sub v"
  by (simp add: applySub.simps subGet_empty)

lemma applySub_Proc [simp]:
  "applySub sub (ProcTExp ps r) = ProcTExp (map (applySub sub) ps) (applySub sub r)"
proof (cases "isEmptySub sub")
  case True
  then have "map (applySub sub) ps = ps"
    by (simp add: applySub_empty map_idI)
  with True show ?thesis by (simp add: applySub_empty)
next
  case False
  then show ?thesis by (simp add: applySub.simps)
qed

lemma lookup_find:
  "length vs = length ts \<Longrightarrow>
   lookup v vs ts = (case find (\<lambda>(x, t). var x = var v) (zip vs ts) of
                       None \<Rightarrow> TVarTExp v | Some (x, t) \<Rightarrow> t)"
  by (induction vs ts rule: list_induct2) (auto simp: eqTVar_def)

lemma lookup_absent:
  "\<forall>x \<in> set vs. var x \<noteq> var v \<Longrightarrow> lookup v vs ts = TVarTExp v"
  by (induction vs arbitrary: ts) (auto simp: eqTVar_def)

section \<open>The occurs-check decides occurrence on well-formed expressions\<close>

lemma mapResult_check:
  assumes "\<And>p. p \<in> set ps \<Longrightarrow>
    check v te p = (if occursIn v p then makeFailure (OccurCheckError v te) else makeOk True)"
  shows "mapResult (check v te) ps =
    (if \<exists>p \<in> set ps. occursIn v p then makeFailure (OccurCheckError v te)
     else makeOk (map (\<lambda>_. True) ps))"
  using assms by (induction ps) auto

lemma check_wf:
  "wfTExp e \<Longrightarrow>
   check v te e = (if occursIn v e then makeFailure (OccurCheckError v te) else makeOk True)"
proof (induction e)
  case (ProcTExp ps r)
  have "\<And>p. p \<in> set ps \<Longrightarrow>
      check v te p = (if occursIn v p then makeFailure (OccurCheckError v te) else makeOk True)"
    using ProcTExp by simp
  from mapResult_check [OF this] ProcTExp show ?case by auto
qed simp_all

lemma checkNoOccurrence_wf:
  "wfTExp e \<Longrightarrow>
   checkNoOccurrence v e =
     (if occursIn v e then makeFailure (OccurCheckError v e) else makeOk True)"
  by (simp add: checkNoOccurrence_def check_wf)

lemma checkNoOccurrence_cases:
  "checkNoOccurrence v t = makeOk True \<or> (\<exists>err. checkNoOccurrence v t = makeFailure err)"
proof -
  have "check v te e = makeOk True \<or> (\<exists>err. check v te e = makeFailure err)" for te e
  proof (induction e)
    case (ProcTExp ps r)
    then show ?case
      by (cases "mapResult (check v te) ps") auto
  qed auto
  then show ?thesis by (simp add: checkNoOccurrence_def)
qed

lemma checkNoOccurrences_find:
  "length vs = length ts \<Longrightarrow>
   checkNoOccurrences vs ts =
     (case find (\<lambda>(v, t). isl (checkNoOccurrence v t)) (zip vs ts) of
        None \<Rightarrow> makeOk True
      | Some (v, t) \<Rightarrow> makeFailure (projl (checkNoOccurrence v t)))"
proof (induction vs ts rule: list_induct2)
  case Nil
  then show ?case by simp
next
  case (Cons v vs t ts)
  then show ?case
    using checkNoOccurrence_cases [of v t] by auto
qed

lemma checkNoOccurrences_wf:
  "length vs = length ts \<Longrightarrow> \<forall>t \<in> set ts. wfTExp t \<Longrightarrow>
   (checkNoOccurrences vs ts = makeOk True) = (\<forall>(v, t) \<in> set (zip vs ts). \<not> occursIn v t)"
proof (induction vs ts rule: list_induct2)
  case Nil
  then show ?case by simp
next
  case (Cons v vs t ts)
  then show ?case
    by (auto simp: checkNoOccurrence_wf)
qed

lemma checkNoOccurrences_True:
  "checkNoOccurrences vs ts = makeOk b \<Longrightarrow> b"
proof (induction vs arbitrary: ts)
  case Nil
  then show ?case by simp
next
  case (Cons v vs)
  then show ?case
    by (cases "checkNoOccurrence v (first ts)") auto
qed

section \<open>Construction, lookup, application: the claims settled directly on the code\<close>

text \<open>
  C7. Given sequences of equal length, \<open>makeSub\<close> runs \<open>checkNoOccurrence\<close> on the pairs
  position by position; the first pair whose check fails decides the result, which is
  that failure; when no pair fails the result holds the two sequences as given. On
  well-formed expressions the construction succeeds exactly when no variable occurs in
  the expression at its own position. \<open>makeSub [] []\<close> succeeds with the empty
  substitution \<open>makeEmptySub\<close>, which applies as the identity. The precondition that
  the names are distinct is not needed for any of this.
\<close>

theorem makeSub_pairwise:
  assumes "length vs = length ts"
  shows "makeSub vs ts =
           (case find (\<lambda>(v, t). isl (checkNoOccurrence v t)) (zip vs ts) of
              None \<Rightarrow> makeOk \<lparr>vars = vs, tes = ts\<rparr>
            | Some (v, t) \<Rightarrow> makeFailure (projl (checkNoOccurrence v t))) \<and>
         ((\<forall>t \<in> set ts. wfTExp t) \<longrightarrow>
           (makeSub vs ts = makeOk \<lparr>vars = vs, tes = ts\<rparr>) =
           (\<forall>(v, t) \<in> set (zip vs ts). \<not> occursIn v t)) \<and>
         makeSub [] [] = makeOk makeEmptySub \<and>
         applySub makeEmptySub e = e"
proof (intro conjI impI)
  show "makeSub vs ts =
           (case find (\<lambda>(v, t). isl (checkNoOccurrence v t)) (zip vs ts) of
              None \<Rightarrow> makeOk \<lparr>vars = vs, tes = ts\<rparr>
            | Some (v, t) \<Rightarrow> makeFailure (projl (checkNoOccurrence v t)))"
    using assms by (simp add: makeSub_def checkNoOccurrences_find split: option.splits)
next
  assume wf: "\<forall>t \<in> set ts. wfTExp t"
  have "(makeSub vs ts = makeOk \<lparr>vars = vs, tes = ts\<rparr>) = (checkNoOccurrences vs ts = makeOk True)"
    by (cases "checkNoOccurrences vs ts") (auto simp: makeSub_def dest: checkNoOccurrences_True)
  then show "(makeSub vs ts = makeOk \<lparr>vars = vs, tes = ts\<rparr>) =
         (\<forall>(v, t) \<in> set (zip vs ts). \<not> occursIn v t)"
    using checkNoOccurrences_wf [OF assms wf] by simp
next
  show "makeSub [] [] = makeOk makeEmptySub"
    by (simp add: makeSub_def makeEmptySub_def)
next
  show "applySub makeEmptySub e = e"
    by (simp add: applySub_empty makeEmptySub_def)
qed

text \<open>
  The source's own example: x, y, z bound to number, boolean and a procedure type that
  mentions z. The first two pairs pass, the third fails, and that failure is the result.
\<close>

theorem makeSub_pairwise_witness:
  "length [makeTVar ''x'', makeTVar ''y'', makeTVar ''z''] =
   length [AtomicTExp ''number'', AtomicTExp ''boolean'',
            ProcTExp [TVarTExp (makeTVar ''z'')] (AtomicTExp ''number'')] \<and>
   makeSub [makeTVar ''x'', makeTVar ''y'', makeTVar ''z'']
           [AtomicTExp ''number'', AtomicTExp ''boolean'',
            ProcTExp [TVarTExp (makeTVar ''z'')] (AtomicTExp ''number'')]
     = makeFailure (OccurCheckError (makeTVar ''z'')
         (ProcTExp [TVarTExp (makeTVar ''z'')] (AtomicTExp ''number'')))"
  using makeSub_pairwise
    [of "[makeTVar ''x'', makeTVar ''y'', makeTVar ''z'']"
        "[AtomicTExp ''number'', AtomicTExp ''boolean'',
          ProcTExp [TVarTExp (makeTVar ''z'')] (AtomicTExp ''number'')]"]
  by (simp add: checkNoOccurrence_def)

text \<open>
  C5. \<open>subGet\<close> is a total function (its scan \<open>lookup\<close> recurses on the tail of the
  variable sequence). On a substitution whose two sequences have the same length it
  returns the expression paired with the first variable that has the name of \<open>v\<close>, and
  \<open>v\<close> itself when there is none; when no variable has the name of \<open>v\<close> it returns \<open>v\<close>
  whatever the expression sequence is.
\<close>

theorem subGet_first_match:
  "(length (vars sub) = length (tes sub) \<longrightarrow>
      subGet sub v = (case find (\<lambda>(x, t). var x = var v) (zip (vars sub) (tes sub)) of
                        None \<Rightarrow> TVarTExp v | Some (x, t) \<Rightarrow> t)) \<and>
   ((\<forall>x \<in> set (vars sub). var x \<noteq> var v) \<longrightarrow> subGet sub v = TVarTExp v)"
  by (simp add: subGet_def lookup_find lookup_absent)

theorem subGet_first_match_witness:
  "subGet \<lparr>vars = [makeTVar ''T1'', makeTVar ''T2'', makeTVar ''T2''],
            tes = [AtomicTExp ''number'', AtomicTExp ''boolean'', AtomicTExp ''string'']\<rparr>
      (makeTVar ''T2'') = AtomicTExp ''boolean'' \<and>
   subGet \<lparr>vars = [makeTVar ''T1''], tes = [AtomicTExp ''number'']\<rparr> (makeTVar ''T3'')
     = TVarTExp (makeTVar ''T3'')"
  using subGet_first_match
    [of "\<lparr>vars = [makeTVar ''T1'', makeTVar ''T2'', makeTVar ''T2''],
            tes = [AtomicTExp ''number'', AtomicTExp ''boolean'', AtomicTExp ''string'']\<rparr>"
        "makeTVar ''T2''"]
    subGet_first_match
    [of "\<lparr>vars = [makeTVar ''T1''], tes = [AtomicTExp ''number'']\<rparr>" "makeTVar ''T3''"]
  by simp

text \<open>
  C6. Applying the empty substitution returns the expression as it is. A non-empty
  substitution leaves an atomic type unchanged, sends a variable to \<open>subGet\<close> of it, and
  maps over the parameters and the return type of a procedure type.
\<close>

theorem applySub_homomorphism:
  "applySub makeEmptySub e = e \<and>
   (\<not> isEmptySub sub \<longrightarrow>
      applySub sub (AtomicTExp a) = AtomicTExp a \<and>
      applySub sub (TVarTExp v) = subGet sub v \<and>
      applySub sub (ProcTExp ps r) = ProcTExp (map (applySub sub) ps) (applySub sub r))"
  by (simp add: applySub_empty makeEmptySub_def)

text \<open>The spec's example: T1, T2 bound to number, boolean, applied to (T1 * T2 -> T1).\<close>

theorem applySub_homomorphism_witness:
  "\<not> isEmptySub \<lparr>vars = [makeTVar ''T1'', makeTVar ''T2''],
                  tes = [AtomicTExp ''number'', AtomicTExp ''boolean'']\<rparr> \<and>
   applySub \<lparr>vars = [makeTVar ''T1'', makeTVar ''T2''],
             tes = [AtomicTExp ''number'', AtomicTExp ''boolean'']\<rparr>
     (ProcTExp [TVarTExp (makeTVar ''T1''), TVarTExp (makeTVar ''T2'')] (TVarTExp (makeTVar ''T1'')))
   = ProcTExp [AtomicTExp ''number'', AtomicTExp ''boolean''] (AtomicTExp ''number'')"
  using applySub_homomorphism
    [of "TVarTExp (makeTVar ''T1'')"
        "\<lparr>vars = [makeTVar ''T1'', makeTVar ''T2''],
          tes = [AtomicTExp ''number'', AtomicTExp ''boolean'']\<rparr>"
        "''number''" "makeTVar ''T1''"
        "[TVarTExp (makeTVar ''T1''), TVarTExp (makeTVar ''T2'')]" "TVarTExp (makeTVar ''T1'')"]
  by (simp add: subGet_def eqTVar_def)

text \<open>
  C10. A value that is none of the three variants is returned unchanged by \<open>applySub\<close>,
  for every substitution (through the last branch when the substitution is not empty),
  while \<open>checkNoOccurrence\<close> fails on it with the bad-type-expression failure.
\<close>

theorem malformed_applySub_checkNoOccurrence:
  assumes "\<not> isAtomicTExp te" and "\<not> isTVar te" and "\<not> isProcTExp te"
  shows "applySub sub te = te \<and>
         checkNoOccurrence v te = makeFailure (BadTypeExpression te te)"
  using assms by (cases te) (simp_all add: checkNoOccurrence_def)

theorem malformed_applySub_checkNoOccurrence_witness:
  "\<not> isAtomicTExp (OtherTExp ''TupleTExp'') \<and> \<not> isTVar (OtherTExp ''TupleTExp'') \<and>
   \<not> isProcTExp (OtherTExp ''TupleTExp'') \<and>
   \<not> isEmptySub \<lparr>vars = [makeTVar ''T1''], tes = [AtomicTExp ''number'']\<rparr> \<and>
   applySub \<lparr>vars = [makeTVar ''T1''], tes = [AtomicTExp ''number'']\<rparr> (OtherTExp ''TupleTExp'')
     = OtherTExp ''TupleTExp'' \<and>
   checkNoOccurrence (makeTVar ''T1'') (OtherTExp ''TupleTExp'')
     = makeFailure (BadTypeExpression (OtherTExp ''TupleTExp'') (OtherTExp ''TupleTExp''))"
  using malformed_applySub_checkNoOccurrence
    [of "OtherTExp ''TupleTExp''"
        "\<lparr>vars = [makeTVar ''T1''], tes = [AtomicTExp ''number'']\<rparr>" "makeTVar ''T1''"]
  by simp

section \<open>Extension and composition\<close>

text \<open>
  C4. When \<open>extendSub sub v e\<close> succeeds, the expressions of \<open>sub\<close> are each rewritten by
  the singleton substitution that sends \<open>v\<close> to \<open>e\<close>. If the name of \<open>v\<close> is among the
  names of \<open>vars sub\<close>, the result has the variable sequence of \<open>sub\<close> and the rewritten
  expressions; otherwise \<open>v\<close> and \<open>e\<close> are put in front of them.
\<close>

theorem extendSub_result:
  assumes "extendSub sub v e = makeOk s"
  shows "let updatedTEs = map (applySub \<lparr>vars = [v], tes = [e]\<rparr>) (tes sub)
         in if var v \<in> set (map var (vars sub))
            then vars s = vars sub \<and> tes s = updatedTEs
            else vars s = v # vars sub \<and> tes s = e # updatedTEs"
  using assms
  by (auto simp: extendSub_def makeSub_def bindResult_def Let_def split: sum.splits if_splits)

text \<open>
  Both cases at concrete inputs: T2 is new to the substitution that binds T1 to T2, and
  T1 is already bound in it.
\<close>

theorem extendSub_result_witness:
  "extendSub \<lparr>vars = [makeTVar ''T1''], tes = [TVarTExp (makeTVar ''T2'')]\<rparr>
      (makeTVar ''T2'') (AtomicTExp ''number'')
     = makeOk \<lparr>vars = [makeTVar ''T2'', makeTVar ''T1''],
               tes = [AtomicTExp ''number'', AtomicTExp ''number'']\<rparr> \<and>
   vars \<lparr>vars = [makeTVar ''T2'', makeTVar ''T1''],
         tes = [AtomicTExp ''number'', AtomicTExp ''number'']\<rparr>
     = makeTVar ''T2'' # vars \<lparr>vars = [makeTVar ''T1''], tes = [TVarTExp (makeTVar ''T2'')]\<rparr> \<and>
   extendSub \<lparr>vars = [makeTVar ''T1''], tes = [TVarTExp (makeTVar ''T2'')]\<rparr>
      (makeTVar ''T1'') (AtomicTExp ''boolean'')
     = makeOk \<lparr>vars = [makeTVar ''T1''], tes = [TVarTExp (makeTVar ''T2'')]\<rparr>"
proof -
  have h1: "extendSub \<lparr>vars = [makeTVar ''T1''], tes = [TVarTExp (makeTVar ''T2'')]\<rparr>
      (makeTVar ''T2'') (AtomicTExp ''number'')
     = makeOk \<lparr>vars = [makeTVar ''T2'', makeTVar ''T1''],
               tes = [AtomicTExp ''number'', AtomicTExp ''number'']\<rparr>"
    by (simp add: extendSub_def makeSub_def checkNoOccurrence_def subGet_def eqTVar_def)
  have h2: "extendSub \<lparr>vars = [makeTVar ''T1''], tes = [TVarTExp (makeTVar ''T2'')]\<rparr>
      (makeTVar ''T1'') (AtomicTExp ''boolean'')
     = makeOk \<lparr>vars = [makeTVar ''T1''], tes = [TVarTExp (makeTVar ''T2'')]\<rparr>"
    by (simp add: extendSub_def makeSub_def checkNoOccurrence_def subGet_def eqTVar_def)
  show ?thesis
    using h1 h2 extendSub_result [OF h1] extendSub_result [OF h2] by simp
qed

text \<open>
  C8. When the first substitution is empty \<open>combineSub\<close> succeeds with the second one,
  and when the second is empty it succeeds with the first.
\<close>

theorem combineSub_identity:
  "(isEmptySub sub1 \<longrightarrow> combineSub sub1 sub2 = makeOk sub2) \<and>
   (isEmptySub sub2 \<longrightarrow> combineSub sub1 sub2 = makeOk sub1)"
  by (auto simp: combineSub_def isEmptySub_def isEmpty_def)

theorem combineSub_identity_witness:
  "isEmptySub makeEmptySub \<and>
   combineSub makeEmptySub \<lparr>vars = [makeTVar ''T1''], tes = [AtomicTExp ''number'']\<rparr>
     = makeOk \<lparr>vars = [makeTVar ''T1''], tes = [AtomicTExp ''number'']\<rparr> \<and>
   combineSub \<lparr>vars = [makeTVar ''T1''], tes = [AtomicTExp ''number'']\<rparr> makeEmptySub
     = makeOk \<lparr>vars = [makeTVar ''T1''], tes = [AtomicTExp ''number'']\<rparr>"
  using combineSub_identity
    [of makeEmptySub "\<lparr>vars = [makeTVar ''T1''], tes = [AtomicTExp ''number'']\<rparr>"]
    combineSub_identity
    [of "\<lparr>vars = [makeTVar ''T1''], tes = [AtomicTExp ''number'']\<rparr>" makeEmptySub]
  by (simp add: makeEmptySub_def)

section \<open>Extension is composition with a singleton\<close>

lemma lookup_map:
  "length vs = length ts \<Longrightarrow>
   lookup x vs (map f ts) =
     (if var x \<in> set (map var vs) then f (lookup x vs ts) else TVarTExp x)"
  by (induction vs ts rule: list_induct2) (auto simp: eqTVar_def)

lemma lookup_not_bound:
  "var x \<notin> set (map var vs) \<Longrightarrow> lookup x vs ts = TVarTExp x"
  by (induction vs arbitrary: ts) (auto simp: eqTVar_def)

lemma lookup_in_range:
  "length vs = length ts \<Longrightarrow> lookup x vs ts = TVarTExp x \<or> lookup x vs ts \<in> set ts"
  by (induction vs ts rule: list_induct2) auto

lemma applySub_no_occurrence:
  "\<forall>x \<in> set (vars sub). \<not> occursIn x t \<Longrightarrow> applySub sub t = t"
proof (induction t)
  case (TVarTExp y)
  then show ?case by (auto simp: subGet_def intro!: lookup_absent)
next
  case (ProcTExp ps r)
  then show ?case by (auto intro: map_idI)
qed simp_all

lemma occursIn_applySub_singleton:
  "occursIn x (applySub \<lparr>vars = [v], tes = [e]\<rparr> t) \<Longrightarrow> occursIn x t \<or> occursIn x e"
  by (induction t) (auto simp: subGet_def eqTVar_def split: if_splits)

lemma not_occursIn_applySub_singleton:
  "\<not> occursIn v e \<Longrightarrow> \<not> occursIn v (applySub \<lparr>vars = [v], tes = [e]\<rparr> t)"
  by (induction t) (auto simp: subGet_def eqTVar_def)

lemma wfTExp_applySub_singleton:
  "wfTExp e \<Longrightarrow> wfTExp t \<Longrightarrow> wfTExp (applySub \<lparr>vars = [v], tes = [e]\<rparr> t)"
  by (induction t) (auto simp: subGet_def eqTVar_def)

lemma makeSub_Ok: "makeSub vs ts = makeOk s \<Longrightarrow> s = \<lparr>vars = vs, tes = ts\<rparr>"
  by (cases "checkNoOccurrences vs ts") (auto simp: makeSub_def)

lemma extendSub_Ok:
  assumes "extendSub sub v e = makeOk s"
  shows "s = (if var v \<in> set (map var (vars sub))
              then \<lparr>vars = vars sub, tes = map (applySub \<lparr>vars = [v], tes = [e]\<rparr>) (tes sub)\<rparr>
              else \<lparr>vars = v # vars sub,
                    tes = e # map (applySub \<lparr>vars = [v], tes = [e]\<rparr>) (tes sub)\<rparr>)"
    and "checkNoOccurrence v e = makeOk True"
proof -
  from assms obtain sub2 where m: "makeSub [v] [e] = makeOk sub2"
    by (cases "makeSub [v] [e]") (auto simp: extendSub_def)
  then have sub2: "sub2 = \<lparr>vars = [v], tes = [e]\<rparr>" by (rule makeSub_Ok)
  from assms m sub2 show "s = (if var v \<in> set (map var (vars sub))
              then \<lparr>vars = vars sub, tes = map (applySub \<lparr>vars = [v], tes = [e]\<rparr>) (tes sub)\<rparr>
              else \<lparr>vars = v # vars sub,
                    tes = e # map (applySub \<lparr>vars = [v], tes = [e]\<rparr>) (tes sub)\<rparr>)"
    by (auto simp: extendSub_def Let_def dest: makeSub_Ok split: if_splits)
  from m show "checkNoOccurrence v e = makeOk True"
    using checkNoOccurrence_cases [of v e] by (auto simp: makeSub_def)
qed

lemma extendSub_length:
  "extendSub sub v e = makeOk s \<Longrightarrow> length (vars sub) = length (tes sub) \<Longrightarrow>
   length (vars s) = length (tes s)"
  by (drule extendSub_Ok(1)) (simp split: if_splits)

lemma check_Ok_not_occurs: "check v te e = makeOk b \<Longrightarrow> \<not> occursIn v e"
proof (induction e arbitrary: b)
  case (ProcTExp ps r)
  have "\<And>p. p \<in> set ps \<Longrightarrow> \<exists>y. check v te p = makeOk y"
  proof -
    fix p assume "p \<in> set ps"
    moreover from ProcTExp.prems obtain ys where "mapResult (check v te) ps = makeOk ys"
      by (cases "mapResult (check v te) ps") auto
    ultimately show "\<exists>y. check v te p = makeOk y"
      by (induction ps arbitrary: ys) (auto simp: bindResult_def split: sum.splits)
  qed
  moreover from ProcTExp.prems obtain b' where "check v te r = makeOk b'"
    by (cases "mapResult (check v te) ps") auto
  ultimately show ?case using ProcTExp.IH by auto
qed (auto split: if_splits)

lemma checkNoOccurrence_Ok_not_occurs: "checkNoOccurrence v e = makeOk b \<Longrightarrow> \<not> occursIn v e"
  by (auto simp: checkNoOccurrence_def dest: check_Ok_not_occurs)

text \<open>
  Extension is composition with the singleton: a successful \<open>extendSub sub v e\<close> applies
  as \<open>sub\<close> followed by the substitution that sends \<open>v\<close> to \<open>e\<close>.
\<close>

lemma extendSub_applySub:
  assumes len: "length (vars sub) = length (tes sub)"
    and ext: "extendSub sub v e = makeOk s"
  shows "applySub s t = applySub \<lparr>vars = [v], tes = [e]\<rparr> (applySub sub t)"
proof (induction t)
  case (TVarTExp x)
  show ?case
  proof (cases "var v \<in> set (map var (vars sub))")
    case True
    with extendSub_Ok(1) [OF ext]
    have s: "s = \<lparr>vars = vars sub, tes = map (applySub \<lparr>vars = [v], tes = [e]\<rparr>) (tes sub)\<rparr>"
      by simp
    show ?thesis
    proof (cases "var x \<in> set (map var (vars sub))")
      case True
      then show ?thesis using len by (simp add: s subGet_def lookup_map)
    next
      case False
      then have "lookup x (vars sub) (tes sub) = TVarTExp x"
        by (simp add: lookup_not_bound)
      moreover from False True have "var v \<noteq> var x" by auto
      ultimately show ?thesis using len False
        by (simp add: s subGet_def lookup_map eqTVar_def)
    qed
  next
    case False
    with extendSub_Ok(1) [OF ext]
    have s: "s = \<lparr>vars = v # vars sub,
                   tes = e # map (applySub \<lparr>vars = [v], tes = [e]\<rparr>) (tes sub)\<rparr>"
      by simp
    show ?thesis
    proof (cases "var v = var x")
      case True
      with False have "lookup x (vars sub) (tes sub) = TVarTExp x"
        by (simp add: lookup_not_bound)
      with True show ?thesis by (simp add: s subGet_def eqTVar_def)
    next
      case neq: False
      show ?thesis
      proof (cases "var x \<in> set (map var (vars sub))")
        case True
        then show ?thesis using len neq by (simp add: s subGet_def lookup_map eqTVar_def)
      next
        case False
        then have "lookup x (vars sub) (tes sub) = TVarTExp x"
          by (simp add: lookup_not_bound)
        then show ?thesis using len neq False
          by (simp add: s subGet_def lookup_map eqTVar_def)
      qed
    qed
  qed
qed simp_all

section \<open>When extension fails\<close>

lemma checkNoOccurrences_result:
  "checkNoOccurrences vs ts = makeOk True \<or> (\<exists>err. checkNoOccurrences vs ts = makeFailure err)"
  by (cases "checkNoOccurrences vs ts") (auto dest: checkNoOccurrences_True)

lemma checkNoOccurrences_wf_error:
  "length vs = length ts \<Longrightarrow> \<forall>t \<in> set ts. wfTExp t \<Longrightarrow>
   checkNoOccurrences vs ts = makeFailure err \<Longrightarrow> \<exists>x t. err = OccurCheckError x t"
proof (induction vs ts rule: list_induct2)
  case Nil
  then show ?case by simp
next
  case (Cons v vs t ts)
  then show ?case
    by (auto simp: checkNoOccurrence_wf split: if_splits)
qed

lemma makeSub_fails_iff:
  assumes "length vs = length ts" and "\<forall>t \<in> set ts. wfTExp t"
  shows "isl (makeSub vs ts) = (\<exists>(x, t) \<in> set (zip vs ts). occursIn x t)"
proof -
  have "isl (makeSub vs ts) = (checkNoOccurrences vs ts \<noteq> makeOk True)"
    using checkNoOccurrences_result [of vs ts] by (auto simp: makeSub_def)
  with checkNoOccurrences_wf [OF assms] show ?thesis by auto
qed

lemma makeSub_wf_error:
  assumes "length vs = length ts" and "\<forall>t \<in> set ts. wfTExp t"
    and "makeSub vs ts = makeFailure err"
  shows "\<exists>x t. err = OccurCheckError x t"
proof -
  from assms(3) have "checkNoOccurrences vs ts = makeFailure err"
    by (cases "checkNoOccurrences vs ts") (auto simp: makeSub_def)
  with assms(1,2) show ?thesis by (rule checkNoOccurrences_wf_error)
qed

lemma extendSub_occurs:
  assumes "wfTExp e" and "occursIn v e"
  shows "extendSub sub v e = makeFailure (OccurCheckError v e)"
  using assms by (simp add: extendSub_def makeSub_def checkNoOccurrence_wf)

lemma extendSub_no_occurs:
  assumes "wfTExp e" and "\<not> occursIn v e"
  shows "extendSub sub v e =
    (let updatedTEs = map (applySub \<lparr>vars = [v], tes = [e]\<rparr>) (tes sub)
     in if var v \<in> set (map var (vars sub))
        then makeSub (vars sub) updatedTEs
        else makeSub (v # vars sub) (e # updatedTEs))"
  using assms by (simp add: extendSub_def makeSub_def [of "[v]"] checkNoOccurrence_wf Let_def)

text \<open>
  C2, as amended. Let the two sequences of \<open>sub\<close> have the same length and let its
  expressions and \<open>e\<close> be well-formed. If \<open>v\<close> occurs in \<open>e\<close> then \<open>extendSub sub v e\<close>
  fails with the occurs-check failure for the pair \<open>(v, e)\<close>, whatever \<open>sub\<close> is. But the
  failure is not independent of \<open>sub\<close>: the result is validated again by \<open>makeSub\<close>, so
  \<open>extendSub\<close> fails exactly when \<open>v\<close> occurs in \<open>e\<close> or some variable of \<open>sub\<close> occurs in
  its own expression once \<open>v\<close> has been replaced by \<open>e\<close> in it. Every failure is an
  occurs-check failure.
\<close>

theorem extendSub_fails_iff:
  assumes len: "length (vars sub) = length (tes sub)"
    and wfs: "\<forall>t \<in> set (tes sub). wfTExp t"
    and wfe: "wfTExp e"
  shows "(occursIn v e \<longrightarrow> extendSub sub v e = makeFailure (OccurCheckError v e)) \<and>
         isl (extendSub sub v e) =
           (occursIn v e \<or>
            (\<exists>(x, t) \<in> set (zip (vars sub) (tes sub)).
                occursIn x (applySub \<lparr>vars = [v], tes = [e]\<rparr> t))) \<and>
         (\<forall>err. extendSub sub v e = makeFailure err \<longrightarrow> (\<exists>x t. err = OccurCheckError x t))"
proof (cases "occursIn v e")
  case True
  with wfe show ?thesis by (simp add: extendSub_occurs)
next
  case False
  let ?f = "applySub \<lparr>vars = [v], tes = [e]\<rparr>"
  let ?ts = "map ?f (tes sub)"
  have wfu: "\<forall>t \<in> set ?ts. wfTExp t"
    using wfs wfe by (auto intro: wfTExp_applySub_singleton)
  have wfu': "\<forall>t \<in> set (e # ?ts). wfTExp t"
    using wfu wfe by simp
  have len1: "length (vars sub) = length ?ts" using len by simp
  have len2: "length (v # vars sub) = length (e # ?ts)" using len by simp
  have zip_map: "(\<exists>(x, t) \<in> set (zip (vars sub) ?ts). occursIn x t) =
        (\<exists>(x, t) \<in> set (zip (vars sub) (tes sub)). occursIn x (?f t))"
    by (simp add: zip_map2 split_beta)
  show ?thesis
  proof (cases "var v \<in> set (map var (vars sub))")
    case True
    then have eq: "extendSub sub v e = makeSub (vars sub) ?ts"
      using extendSub_no_occurs [OF wfe False] by (simp add: Let_def)
    show ?thesis
      using False makeSub_fails_iff [OF len1 wfu] makeSub_wf_error [OF len1 wfu] zip_map
      by (simp add: eq)
  next
    case nin: False
    then have eq: "extendSub sub v e = makeSub (v # vars sub) (e # ?ts)"
      using extendSub_no_occurs [OF wfe False] by (simp add: Let_def)
    show ?thesis
      using False makeSub_fails_iff [OF len2 wfu'] makeSub_wf_error [OF len2 wfu'] zip_map
      by (simp add: eq)
  qed
qed

theorem extendSub_fails_iff_witness:
  "wfTExp (TVarTExp (makeTVar ''x'')) \<and>
   \<not> occursIn (makeTVar ''y'') (TVarTExp (makeTVar ''x'')) \<and>
   occursIn (makeTVar ''x'')
     (applySub \<lparr>vars = [makeTVar ''y''], tes = [TVarTExp (makeTVar ''x'')]\<rparr>
        (TVarTExp (makeTVar ''y''))) \<and>
   isl (extendSub \<lparr>vars = [makeTVar ''x''], tes = [TVarTExp (makeTVar ''y'')]\<rparr>
          (makeTVar ''y'') (TVarTExp (makeTVar ''x''))) \<and>
   extendSub \<lparr>vars = [makeTVar ''x''], tes = [TVarTExp (makeTVar ''y'')]\<rparr>
       (makeTVar ''x'') (ProcTExp [TVarTExp (makeTVar ''x'')] (AtomicTExp ''number''))
     = makeFailure (OccurCheckError (makeTVar ''x'')
         (ProcTExp [TVarTExp (makeTVar ''x'')] (AtomicTExp ''number'')))"
  using extendSub_fails_iff
    [of "\<lparr>vars = [makeTVar ''x''], tes = [TVarTExp (makeTVar ''y'')]\<rparr>"
        "TVarTExp (makeTVar ''x'')" "makeTVar ''y''"]
    extendSub_fails_iff
    [of "\<lparr>vars = [makeTVar ''x''], tes = [TVarTExp (makeTVar ''y'')]\<rparr>"
        "ProcTExp [TVarTExp (makeTVar ''x'')] (AtomicTExp ''number'')" "makeTVar ''x''"]
  by (simp add: subGet_def eqTVar_def)

text \<open>
  The claim as stated fails: x is bound to y, and y is then bound to x. The variable y
  does not occur in the expression x, yet the extension fails with an occurs-check
  failure, raised for the old binding of x, whose expression has become x.
\<close>

theorem extendSub_fails_iff_counterexample:
  "\<not> occursIn (makeTVar ''y'') (TVarTExp (makeTVar ''x'')) \<and>
   extendSub \<lparr>vars = [makeTVar ''x''], tes = [TVarTExp (makeTVar ''y'')]\<rparr>
       (makeTVar ''y'') (TVarTExp (makeTVar ''x''))
     = makeFailure (OccurCheckError (makeTVar ''x'') (TVarTExp (makeTVar ''x'')))"
  by (simp add: extendSub_def makeSub_def checkNoOccurrence_def subGet_def eqTVar_def)

section \<open>Idempotence\<close>

lemma idempotentSub_applySub:
  assumes len: "length (vars sub) = length (tes sub)" and idem: "idempotentSub sub"
  shows "applySub sub (applySub sub x) = applySub sub x"
proof (induction x)
  case (TVarTExp y)
  from lookup_in_range [OF len, of y]
  show ?case
  proof
    assume "lookup y (vars sub) (tes sub) = TVarTExp y"
    then show ?thesis by (simp add: subGet_def)
  next
    assume "lookup y (vars sub) (tes sub) \<in> set (tes sub)"
    with idem have "\<forall>x \<in> set (vars sub). \<not> occursIn x (lookup y (vars sub) (tes sub))"
      by (simp add: idempotentSub_def)
    then show ?thesis by (simp add: subGet_def applySub_no_occurrence)
  qed
qed simp_all

lemma idempotentSub_extendSub:
  assumes idem: "idempotentSub sub"
    and fresh: "\<forall>x \<in> set (vars sub). \<not> occursIn x e"
    and ext: "extendSub sub v e = makeOk s"
  shows "idempotentSub s"
proof -
  let ?f = "applySub \<lparr>vars = [v], tes = [e]\<rparr>"
  have ve: "\<not> occursIn v e"
    using extendSub_Ok(2) [OF ext] by (rule checkNoOccurrence_Ok_not_occurs)
  have old: "\<not> occursIn x (?f t)" if "x \<in> set (vars sub)" "t \<in> set (tes sub)" for x t
    using that idem fresh occursIn_applySub_singleton [of x v e t]
    by (auto simp: idempotentSub_def)
  have new: "\<not> occursIn v (?f t)" for t
    using ve by (rule not_occursIn_applySub_singleton)
  show ?thesis
  proof (cases "var v \<in> set (map var (vars sub))")
    case True
    with extendSub_Ok(1) [OF ext] have "s = \<lparr>vars = vars sub, tes = map ?f (tes sub)\<rparr>"
      by simp
    then show ?thesis using old by (auto simp: idempotentSub_def)
  next
    case False
    with extendSub_Ok(1) [OF ext]
    have "s = \<lparr>vars = v # vars sub, tes = e # map ?f (tes sub)\<rparr>"
      by simp
    then show ?thesis using old new ve fresh by (auto simp: idempotentSub_def)
  qed
qed

text \<open>
  C3, as amended. Let \<open>s0\<close> have sequences of the same length and be idempotent (no
  variable it binds occurs in its expressions), and let no variable bound by \<open>s0\<close> occur
  in \<open>e\<close>. Then, once \<open>s = extendSub s0 v e\<close> succeeds, applying \<open>s\<close> twice is applying it
  once, for every expression.
\<close>

theorem extendSub_idempotent:
  assumes "length (vars s0) = length (tes s0)"
    and "idempotentSub s0"
    and "\<forall>y \<in> set (vars s0). \<not> occursIn y e"
    and "extendSub s0 v e = makeOk s"
  shows "applySub s (applySub s x) = applySub s x"
proof -
  have "length (vars s) = length (tes s)"
    using assms(4,1) by (rule extendSub_length)
  moreover have "idempotentSub s"
    using assms(2,3,4) by (rule idempotentSub_extendSub)
  ultimately show ?thesis by (rule idempotentSub_applySub)
qed

theorem extendSub_idempotent_witness:
  "length (vars \<lparr>vars = [makeTVar ''T1''], tes = [TVarTExp (makeTVar ''T2'')]\<rparr>) =
   length (tes \<lparr>vars = [makeTVar ''T1''], tes = [TVarTExp (makeTVar ''T2'')]\<rparr>) \<and>
   idempotentSub \<lparr>vars = [makeTVar ''T1''], tes = [TVarTExp (makeTVar ''T2'')]\<rparr> \<and>
   \<not> occursIn (makeTVar ''T1'') (AtomicTExp ''number'') \<and>
   extendSub \<lparr>vars = [makeTVar ''T1''], tes = [TVarTExp (makeTVar ''T2'')]\<rparr>
       (makeTVar ''T2'') (AtomicTExp ''number'')
     = makeOk \<lparr>vars = [makeTVar ''T2'', makeTVar ''T1''],
               tes = [AtomicTExp ''number'', AtomicTExp ''number'']\<rparr> \<and>
   applySub \<lparr>vars = [makeTVar ''T2'', makeTVar ''T1''],
             tes = [AtomicTExp ''number'', AtomicTExp ''number'']\<rparr>
     (applySub \<lparr>vars = [makeTVar ''T2'', makeTVar ''T1''],
               tes = [AtomicTExp ''number'', AtomicTExp ''number'']\<rparr>
        (ProcTExp [TVarTExp (makeTVar ''T1'')] (TVarTExp (makeTVar ''T2''))))
   = applySub \<lparr>vars = [makeTVar ''T2'', makeTVar ''T1''],
               tes = [AtomicTExp ''number'', AtomicTExp ''number'']\<rparr>
       (ProcTExp [TVarTExp (makeTVar ''T1'')] (TVarTExp (makeTVar ''T2'')))"
proof -
  have idem: "idempotentSub \<lparr>vars = [makeTVar ''T1''], tes = [TVarTExp (makeTVar ''T2'')]\<rparr>"
    by (simp add: idempotentSub_def)
  have ext: "extendSub \<lparr>vars = [makeTVar ''T1''], tes = [TVarTExp (makeTVar ''T2'')]\<rparr>
       (makeTVar ''T2'') (AtomicTExp ''number'')
     = makeOk \<lparr>vars = [makeTVar ''T2'', makeTVar ''T1''],
               tes = [AtomicTExp ''number'', AtomicTExp ''number'']\<rparr>"
    by (simp add: extendSub_def makeSub_def checkNoOccurrence_def subGet_def eqTVar_def)
  show ?thesis
    using idem ext
      extendSub_idempotent [OF _ idem _ ext,
        of "ProcTExp [TVarTExp (makeTVar ''T1'')] (TVarTExp (makeTVar ''T2''))"]
    by simp
qed

text \<open>
  The claim as stated fails. The substitution that binds a to b is what
  \<open>extendSub makeEmptySub a b\<close> returns; it is idempotent. Extending it with c bound to
  a succeeds, and in the result c goes to a while a goes to b: applying the result
  twice to c gives b, applying it once gives a.
\<close>

theorem extendSub_idempotent_counterexample:
  "extendSub makeEmptySub (makeTVar ''a'') (TVarTExp (makeTVar ''b''))
     = makeOk \<lparr>vars = [makeTVar ''a''], tes = [TVarTExp (makeTVar ''b'')]\<rparr> \<and>
   extendSub \<lparr>vars = [makeTVar ''a''], tes = [TVarTExp (makeTVar ''b'')]\<rparr>
      (makeTVar ''c'') (TVarTExp (makeTVar ''a''))
     = makeOk \<lparr>vars = [makeTVar ''c'', makeTVar ''a''],
               tes = [TVarTExp (makeTVar ''a''), TVarTExp (makeTVar ''b'')]\<rparr> \<and>
   applySub \<lparr>vars = [makeTVar ''c'', makeTVar ''a''],
             tes = [TVarTExp (makeTVar ''a''), TVarTExp (makeTVar ''b'')]\<rparr>
     (TVarTExp (makeTVar ''c'')) = TVarTExp (makeTVar ''a'') \<and>
   applySub \<lparr>vars = [makeTVar ''c'', makeTVar ''a''],
             tes = [TVarTExp (makeTVar ''a''), TVarTExp (makeTVar ''b'')]\<rparr>
     (applySub \<lparr>vars = [makeTVar ''c'', makeTVar ''a''],
               tes = [TVarTExp (makeTVar ''a''), TVarTExp (makeTVar ''b'')]\<rparr>
        (TVarTExp (makeTVar ''c''))) = TVarTExp (makeTVar ''b'')"
  by (simp add: extendSub_def makeSub_def checkNoOccurrence_def subGet_def eqTVar_def
      makeEmptySub_def)

section \<open>Composition\<close>

lemma combine_applySub:
  "length vs = length ts \<Longrightarrow> length (vars sub) = length (tes sub) \<Longrightarrow>
   combine sub vs ts = makeOk s \<Longrightarrow>
   applySub s t =
     foldl (\<lambda>u (v, e). applySub \<lparr>vars = [v], tes = [e]\<rparr> u) (applySub sub t) (zip vs ts)"
proof (induction vs ts arbitrary: sub rule: list_induct2)
  case Nil
  then show ?case by simp
next
  case (Cons v vs e ts)
  from Cons.prems(2) obtain ext where ext: "extendSub sub v e = makeOk ext"
    and rec: "combine ext vs ts = makeOk s"
    by (cases "extendSub sub v e") auto
  have "length (vars ext) = length (tes ext)"
    using ext Cons.prems(1) by (rule extendSub_length)
  from Cons.IH [OF this rec] extendSub_applySub [OF Cons.prems(1) ext]
  show ?case by simp
qed

lemma applySub_Cons:
  "\<forall>x \<in> set vs. \<not> occursIn x e \<Longrightarrow>
   applySub \<lparr>vars = vs, tes = ts\<rparr> (applySub \<lparr>vars = [v], tes = [e]\<rparr> t) =
   applySub \<lparr>vars = v # vs, tes = e # ts\<rparr> t"
proof (induction t)
  case (TVarTExp x)
  then show ?case
    by (simp add: subGet_def eqTVar_def applySub_no_occurrence)
qed simp_all

lemma sequential_applySub:
  "length vs = length ts \<Longrightarrow> noForwardOccurrence vs ts \<Longrightarrow>
   foldl (\<lambda>u (v, e). applySub \<lparr>vars = [v], tes = [e]\<rparr> u) t (zip vs ts) =
   applySub \<lparr>vars = vs, tes = ts\<rparr> t"
proof (induction vs ts arbitrary: t rule: list_induct2)
  case Nil
  then show ?case by (simp add: applySub_empty)
next
  case (Cons v vs e ts)
  then show ?case by (simp add: applySub_Cons)
qed

text \<open>
  Where the composition law does hold: when no variable of \<open>sub2\<close> occurs in the
  expression of a binding that \<open>sub2\<close> stores before it (every idempotent \<open>sub2\<close> is such),
  a successful \<open>combineSub sub1 sub2\<close> applies as \<open>sub1\<close> followed by \<open>sub2\<close>.
\<close>

lemma combineSub_applySub:
  assumes len1: "length (vars sub1) = length (tes sub1)"
    and len2: "length (vars sub2) = length (tes sub2)"
    and ord: "noForwardOccurrence (vars sub2) (tes sub2)"
    and ok: "combineSub sub1 sub2 = makeOk s"
  shows "applySub s t = applySub sub2 (applySub sub1 t)"
proof (cases "isEmptySub sub1")
  case True
  with ok show ?thesis by (simp add: combineSub_def applySub_empty)
next
  case ne1: False
  show ?thesis
  proof (cases "isEmptySub sub2")
    case True
    with ok ne1 show ?thesis by (simp add: combineSub_def applySub_empty)
  next
    case False
    with ok ne1 have c: "combine sub1 (vars sub2) (tes sub2) = makeOk s"
      by (simp add: combineSub_def)
    obtain vs ts where sub2: "sub2 = \<lparr>vars = vs, tes = ts\<rparr>"
      by (cases sub2) simp
    from len2 ord c have "length vs = length ts" "noForwardOccurrence vs ts"
      "combine sub1 vs ts = makeOk s"
      by (simp_all add: sub2)
    with combine_applySub [OF _ len1, of vs ts s t] sequential_applySub [of vs ts]
    show ?thesis by (simp add: sub2)
  qed
qed

lemma idempotentSub_noForwardOccurrence:
  "length vs = length ts \<Longrightarrow> idempotentSub \<lparr>vars = vs, tes = ts\<rparr> \<Longrightarrow>
   noForwardOccurrence vs ts"
  by (induction vs ts rule: list_induct2) (auto simp: idempotentSub_def)

text \<open>
  C1. The law \<open>applySub s te = applySub sub2 (applySub sub1 te)\<close> for a successful
  \<open>combineSub sub1 sub2 = s\<close>, which the source states in the comment above
  \<open>combineSub\<close>, fails on the code. Both substitutions below pass \<open>makeSub\<close> (no name is
  repeated, the lengths agree, no variable occurs in its own expression), and the
  second is also what extending the empty substitution with z bound to number and then
  with y bound to z yields. Their combination succeeds and sends x to number, while
  applying the first and then the second sends x to z: \<open>combine\<close> folds the bindings of
  \<open>sub2\<close> in one after the other, so a later binding of \<open>sub2\<close> rewrites the expression
  of an earlier one.
\<close>

theorem combineSub_law_fails:
  "makeSub [makeTVar ''x''] [TVarTExp (makeTVar ''y'')]
     = makeOk \<lparr>vars = [makeTVar ''x''], tes = [TVarTExp (makeTVar ''y'')]\<rparr> \<and>
   makeSub [makeTVar ''y'', makeTVar ''z''] [TVarTExp (makeTVar ''z''), AtomicTExp ''number'']
     = makeOk \<lparr>vars = [makeTVar ''y'', makeTVar ''z''],
               tes = [TVarTExp (makeTVar ''z''), AtomicTExp ''number'']\<rparr> \<and>
   bindResult (extendSub makeEmptySub (makeTVar ''z'') (AtomicTExp ''number''))
       (\<lambda>s. extendSub s (makeTVar ''y'') (TVarTExp (makeTVar ''z'')))
     = makeOk \<lparr>vars = [makeTVar ''y'', makeTVar ''z''],
               tes = [TVarTExp (makeTVar ''z''), AtomicTExp ''number'']\<rparr> \<and>
   combineSub \<lparr>vars = [makeTVar ''x''], tes = [TVarTExp (makeTVar ''y'')]\<rparr>
              \<lparr>vars = [makeTVar ''y'', makeTVar ''z''],
               tes = [TVarTExp (makeTVar ''z''), AtomicTExp ''number'']\<rparr>
     = makeOk \<lparr>vars = [makeTVar ''z'', makeTVar ''y'', makeTVar ''x''],
               tes = [AtomicTExp ''number'', AtomicTExp ''number'', AtomicTExp ''number'']\<rparr> \<and>
   applySub \<lparr>vars = [makeTVar ''z'', makeTVar ''y'', makeTVar ''x''],
             tes = [AtomicTExp ''number'', AtomicTExp ''number'', AtomicTExp ''number'']\<rparr>
      (TVarTExp (makeTVar ''x'')) = AtomicTExp ''number'' \<and>
   applySub \<lparr>vars = [makeTVar ''y'', makeTVar ''z''],
             tes = [TVarTExp (makeTVar ''z''), AtomicTExp ''number'']\<rparr>
      (applySub \<lparr>vars = [makeTVar ''x''], tes = [TVarTExp (makeTVar ''y'')]\<rparr>
         (TVarTExp (makeTVar ''x''))) = TVarTExp (makeTVar ''z'')"
  by (simp add: combineSub_def extendSub_def makeSub_def checkNoOccurrence_def subGet_def
      eqTVar_def makeEmptySub_def)

section \<open>Termination\<close>

lemma depthTExp_param: "p \<in> set ps \<Longrightarrow> depthTExp p < depthTExp (ProcTExp ps r)"
proof -
  assume "p \<in> set ps"
  then have "depthTExp p \<in> set (0 # map depthTExp ps)" by simp
  then have "depthTExp p \<le> Max (set (0 # map depthTExp ps))"
    by (intro Max_ge) simp_all
  then show ?thesis by simp
qed

lemma depthTExp_return: "depthTExp r < depthTExp (ProcTExp ps r)"
  by simp

lemma size_param: "p \<in> set ps \<Longrightarrow> size p < Suc (size_list size ps + size r)"
  by (induction ps) auto

lemma check_rel_descends:
  "check_rel (tvar', te', e') (tvar, te, e) \<Longrightarrow>
   size e' < size e \<and> depthTExp e' < depthTExp e"
  by (erule check_rel.cases) (auto simp: size_param depthTExp_param depthTExp_return simp del: depthTExp.simps)

lemma applySub_rel_descends:
  "applySub_rel (sub', t') (sub, t) \<Longrightarrow>
   sub' = sub \<and> \<not> isEmptySub sub \<and> size t' < size t \<and> depthTExp t' < depthTExp t"
  by (erule applySub_rel.cases) (auto simp: size_param depthTExp_param depthTExp_return simp del: depthTExp.simps)

lemma lookup_rel_descends:
  "lookup_rel (v', vs', ts') (v, vs, ts) \<Longrightarrow> length vs = Suc (length vs')"
  by (erule lookup_rel.cases) auto

lemma checkNoOccurrences_rel_descends:
  "checkNoOccurrences_rel (vs', ts') (vs, ts) \<Longrightarrow> length vs = Suc (length vs')"
  by (erule checkNoOccurrences_rel.cases) auto

lemma combine_rel_descends:
  "combine_rel (sub', vs', ts') (sub, vs, ts) \<Longrightarrow> length vs = Suc (length vs')"
  by (erule combine_rel.cases) auto

text \<open>
  The call relations are well-founded, since each call decreases a measure in the
  natural numbers; hence every argument is accessible.
\<close>

lemma check_terminates: "check_dom (tvar, te, e)"
proof -
  have "wfp check_rel"
  proof (rule wfp_if_convertible_to_nat)
    fix x y :: "TVar \<times> TExp \<times> TExp"
    assume "check_rel x y"
    then show "size (snd (snd x)) < size (snd (snd y))"
      by (cases x, cases y) (auto dest: check_rel_descends)
  qed
  then show ?thesis by (rule accp_wfpD)
qed

lemma applySub_terminates: "applySub_dom (sub, t)"
proof -
  have "wfp applySub_rel"
  proof (rule wfp_if_convertible_to_nat)
    fix x y :: "Sub \<times> TExp"
    assume "applySub_rel x y"
    then show "size (snd x) < size (snd y)"
      by (cases x, cases y) (auto dest: applySub_rel_descends)
  qed
  then show ?thesis by (rule accp_wfpD)
qed

lemma lookup_terminates: "lookup_dom (v, vs, ts)"
proof -
  have "wfp lookup_rel"
  proof (rule wfp_if_convertible_to_nat)
    fix x y :: "TVar \<times> TVar list \<times> TExp list"
    assume "lookup_rel x y"
    then show "length (fst (snd x)) < length (fst (snd y))"
      by (cases x, cases y) (auto dest: lookup_rel_descends)
  qed
  then show ?thesis by (rule accp_wfpD)
qed

lemma checkNoOccurrences_terminates: "checkNoOccurrences_dom (vs, ts)"
proof -
  have "wfp checkNoOccurrences_rel"
  proof (rule wfp_if_convertible_to_nat)
    fix x y :: "TVar list \<times> TExp list"
    assume "checkNoOccurrences_rel x y"
    then show "length (fst x) < length (fst y)"
      by (cases x, cases y) (auto dest: checkNoOccurrences_rel_descends)
  qed
  then show ?thesis by (rule accp_wfpD)
qed

lemma combine_terminates: "combine_dom (sub, vs, ts)"
proof -
  have "wfp combine_rel"
  proof (rule wfp_if_convertible_to_nat)
    fix x y :: "Sub \<times> TVar list \<times> TExp list"
    assume "combine_rel x y"
    then show "length (fst (snd x)) < length (fst (snd y))"
      by (cases x, cases y) (auto dest: combine_rel_descends)
  qed
  then show ?thesis by (rule accp_wfpD)
qed

lemma mapResult_terminates: "mapResult_dom (f, xs)"
proof -
  have "wfp (mapResult_rel :: ('a \<Rightarrow> error + 'b) \<times> 'a list \<Rightarrow> _)"
  proof (rule wfp_if_convertible_to_nat)
    fix x y :: "('a \<Rightarrow> error + 'b) \<times> 'a list"
    assume "mapResult_rel x y"
    then show "length (snd x) < length (snd y)"
      by (rule mapResult_rel.cases) auto
  qed
  then show ?thesis by (rule accp_wfpD)
qed

lemma applySub_rel_exact:
  assumes "\<not> isEmptySub sub" and "depthTExp t = Suc n"
  shows "\<exists>t'. applySub_rel (sub, t') (sub, t) \<and> depthTExp t' = n"
proof (cases t)
  case (ProcTExp ps r)
  define m where "m = Max (set (0 # map depthTExp ps))"
  from assms(2) ProcTExp have n: "n = max m (depthTExp r)"
    unfolding m_def by simp
  show ?thesis
  proof (cases "depthTExp r = n")
    case True
    with assms(1) ProcTExp show ?thesis
      by (auto intro: applySub_rel.intros)
  next
    case False
    with n have m: "m = n" "0 < n" by arith+
    have "m \<in> set (0 # map depthTExp ps)"
      unfolding m_def by (intro Max_in) simp_all
    with m obtain p where "p \<in> set ps" "depthTExp p = n" by auto
    with assms(1) ProcTExp show ?thesis
      by (auto intro: applySub_rel.intros)
  qed
qed (use assms in simp_all)

text \<open>
  The recursion depth of a call is the length of the longest chain of nested recursive
  calls below it, that is, of the longest chain in the call relation. Such a chain is
  never longer than the tree is deep; for a non-empty substitution \<open>applySub\<close> has a
  chain of exactly that length, down to a leaf, and for the empty substitution it has
  no recursive call at all.
\<close>

lemma check_chain_bound:
  "(check_rel ^^ k) x y \<Longrightarrow> k + depthTExp (snd (snd x)) \<le> depthTExp (snd (snd y))"
proof (induction k arbitrary: y)
  case 0
  then show ?case by simp
next
  case (Suc k)
  then obtain z where chain: "(check_rel ^^ k) x z" and step: "check_rel z y"
    by auto
  from step have "depthTExp (snd (snd z)) < depthTExp (snd (snd y))"
    by (cases z, cases y) (auto dest: check_rel_descends)
  with Suc.IH [OF chain] show ?case by simp
qed

lemma applySub_chain_bound:
  "(applySub_rel ^^ k) x y \<Longrightarrow> k + depthTExp (snd x) \<le> depthTExp (snd y)"
proof (induction k arbitrary: y)
  case 0
  then show ?case by simp
next
  case (Suc k)
  then obtain z where chain: "(applySub_rel ^^ k) x z" and step: "applySub_rel z y"
    by auto
  from step have "depthTExp (snd z) < depthTExp (snd y)"
    by (cases z, cases y) (auto dest: applySub_rel_descends)
  with Suc.IH [OF chain] show ?case by simp
qed

lemma applySub_chain_exact:
  assumes "\<not> isEmptySub sub"
  shows "depthTExp t = n \<Longrightarrow> \<exists>t'. (applySub_rel ^^ n) (sub, t') (sub, t) \<and> depthTExp t' = 0"
proof (induction n arbitrary: t)
  case 0
  then show ?case by auto
next
  case (Suc n)
  from applySub_rel_exact [OF assms Suc.prems]
  obtain u where step: "applySub_rel (sub, u) (sub, t)" and u: "depthTExp u = n"
    by auto
  from Suc.IH [OF u] obtain t' where "(applySub_rel ^^ n) (sub, t') (sub, u)" "depthTExp t' = 0"
    by auto
  with step show ?case by (auto intro: relpowp_Suc_I)
qed

lemma applySub_empty_no_call:
  "isEmptySub sub \<Longrightarrow> \<not> applySub_rel x (sub, t)"
  by (cases x) (auto dest: applySub_rel_descends)

text \<open>
  C9, as amended. Every recursive function of the module terminates on every input:
  each argument is in the accessible part of the function's own call relation (the
  relation between the arguments of a recursive call and those of the call that makes
  it). A recursive call of \<open>check\<close> or of \<open>applySub\<close> is on a strictly smaller
  sub-expression, and a chain of \<open>k\<close> nested calls of either has \<open>k\<close> at most the depth
  of the expression tree. The recursion depth is not always equal to the tree depth:
  it is equal for \<open>applySub\<close> with a non-empty substitution, and with the empty
  substitution \<open>applySub\<close> makes no recursive call. A recursive call of \<open>lookup\<close>,
  \<open>checkNoOccurrences\<close> or \<open>combine\<close> is on a variable sequence one shorter.
  \<open>checkNoOccurrence\<close>, \<open>makeSub\<close>, \<open>subGet\<close>, \<open>extendSub\<close> and \<open>combineSub\<close> do not recurse
  themselves; they are compositions of these functions.
\<close>

theorem operations_terminate:
  "check_dom (tvar, te, e) \<and> mapResult_dom (check tvar te, ps) \<and>
   checkNoOccurrences_dom (vs, ts) \<and> lookup_dom (v, vs, ts) \<and>
   applySub_dom (sub, t) \<and> combine_dom (sub, vs, ts) \<and>
   (check_rel (tvar', te', e') (tvar, te, e) \<longrightarrow> size e' < size e) \<and>
   (applySub_rel (sub', t') (sub, t) \<longrightarrow> size t' < size t) \<and>
   ((check_rel ^^ k) (tvar', te', e') (tvar, te, e) \<longrightarrow> k \<le> depthTExp e) \<and>
   ((applySub_rel ^^ k) (sub', t') (sub, t) \<longrightarrow> k \<le> depthTExp t) \<and>
   (\<not> isEmptySub sub \<longrightarrow> (\<exists>t'. (applySub_rel ^^ depthTExp t) (sub, t') (sub, t))) \<and>
   (isEmptySub sub \<longrightarrow> \<not> applySub_rel (sub', t') (sub, t)) \<and>
   (lookup_rel (v', vs', ts') (v, vs, ts) \<longrightarrow> length vs = Suc (length vs')) \<and>
   (checkNoOccurrences_rel (vs', ts') (vs, ts) \<longrightarrow> length vs = Suc (length vs')) \<and>
   (combine_rel (sub', vs', ts') (sub, vs, ts) \<longrightarrow> length vs = Suc (length vs'))"
proof (intro conjI impI)
  show "check_dom (tvar, te, e)" by (rule check_terminates)
  show "mapResult_dom (check tvar te, ps)" by (rule mapResult_terminates)
  show "checkNoOccurrences_dom (vs, ts)" by (rule checkNoOccurrences_terminates)
  show "lookup_dom (v, vs, ts)" by (rule lookup_terminates)
  show "applySub_dom (sub, t)" by (rule applySub_terminates)
  show "combine_dom (sub, vs, ts)" by (rule combine_terminates)
next
  assume "check_rel (tvar', te', e') (tvar, te, e)"
  then show "size e' < size e" by (simp add: check_rel_descends)
next
  assume "applySub_rel (sub', t') (sub, t)"
  then show "size t' < size t" by (simp add: applySub_rel_descends)
next
  assume "(check_rel ^^ k) (tvar', te', e') (tvar, te, e)"
  then show "k \<le> depthTExp e" by (auto dest: check_chain_bound)
next
  assume "(applySub_rel ^^ k) (sub', t') (sub, t)"
  then show "k \<le> depthTExp t" by (auto dest: applySub_chain_bound)
next
  assume "\<not> isEmptySub sub"
  then show "\<exists>t'. (applySub_rel ^^ depthTExp t) (sub, t') (sub, t)"
    using applySub_chain_exact [of sub t "depthTExp t"] by auto
next
  assume "isEmptySub sub"
  then show "\<not> applySub_rel (sub', t') (sub, t)" by (rule applySub_empty_no_call)
next
  assume "lookup_rel (v', vs', ts') (v, vs, ts)"
  then show "length vs = Suc (length vs')" by (rule lookup_rel_descends)
next
  assume "checkNoOccurrences_rel (vs', ts') (vs, ts)"
  then show "length vs = Suc (length vs')" by (rule checkNoOccurrences_rel_descends)
next
  assume "combine_rel (sub', vs', ts') (sub, vs, ts)"
  then show "length vs = Suc (length vs')" by (rule combine_rel_descends)
qed

text \<open>
  At concrete inputs: applying a one-binding substitution to the procedure type
  (T1 -> number), of depth one, calls \<open>applySub\<close> on the parameter T1, a chain of length
  one; checking T1 against (T2 -> number) calls \<open>check\<close> on the parameter T2; combining
  into the empty substitution calls \<open>combine\<close> on the remaining, empty, sequences.
\<close>

theorem operations_terminate_witness:
  "applySub_dom (\<lparr>vars = [makeTVar ''T1''], tes = [AtomicTExp ''number'']\<rparr>,
      ProcTExp [TVarTExp (makeTVar ''T1'')] (AtomicTExp ''number'')) \<and>
   \<not> isEmptySub \<lparr>vars = [makeTVar ''T1''], tes = [AtomicTExp ''number'']\<rparr> \<and>
   (applySub_rel ^^ Suc 0)
     (\<lparr>vars = [makeTVar ''T1''], tes = [AtomicTExp ''number'']\<rparr>, TVarTExp (makeTVar ''T1''))
     (\<lparr>vars = [makeTVar ''T1''], tes = [AtomicTExp ''number'']\<rparr>,
      ProcTExp [TVarTExp (makeTVar ''T1'')] (AtomicTExp ''number'')) \<and>
   Suc 0 \<le> depthTExp (ProcTExp [TVarTExp (makeTVar ''T1'')] (AtomicTExp ''number'')) \<and>
   (\<exists>t'. (applySub_rel ^^ depthTExp (ProcTExp [TVarTExp (makeTVar ''T1'')] (AtomicTExp ''number'')))
      (\<lparr>vars = [makeTVar ''T1''], tes = [AtomicTExp ''number'']\<rparr>, t')
      (\<lparr>vars = [makeTVar ''T1''], tes = [AtomicTExp ''number'']\<rparr>,
       ProcTExp [TVarTExp (makeTVar ''T1'')] (AtomicTExp ''number''))) \<and>
   check_dom (makeTVar ''T1'', ProcTExp [TVarTExp (makeTVar ''T2'')] (AtomicTExp ''number''),
      ProcTExp [TVarTExp (makeTVar ''T2'')] (AtomicTExp ''number'')) \<and>
   check_rel
     (makeTVar ''T1'', ProcTExp [TVarTExp (makeTVar ''T2'')] (AtomicTExp ''number''),
      TVarTExp (makeTVar ''T2''))
     (makeTVar ''T1'', ProcTExp [TVarTExp (makeTVar ''T2'')] (AtomicTExp ''number''),
      ProcTExp [TVarTExp (makeTVar ''T2'')] (AtomicTExp ''number'')) \<and>
   size (TVarTExp (makeTVar ''T2''))
     < size (ProcTExp [TVarTExp (makeTVar ''T2'')] (AtomicTExp ''number'')) \<and>
   combine_dom (makeEmptySub, [makeTVar ''T1''], [AtomicTExp ''number'']) \<and>
   combine_rel
     (\<lparr>vars = [makeTVar ''T1''], tes = [AtomicTExp ''number'']\<rparr>, [], [])
     (makeEmptySub, [makeTVar ''T1''], [AtomicTExp ''number''])"
proof -
  let ?S = "\<lparr>vars = [makeTVar ''T1''], tes = [AtomicTExp ''number'']\<rparr>"
  let ?T = "ProcTExp [TVarTExp (makeTVar ''T1'')] (AtomicTExp ''number'')"
  let ?U = "ProcTExp [TVarTExp (makeTVar ''T2'')] (AtomicTExp ''number'')"
  have a: "applySub_rel (?S, TVarTExp (makeTVar ''T1'')) (?S, ?T)"
    by (rule applySub_rel.intros(1) [where ?x31.0 = "[TVarTExp (makeTVar ''T1'')]"
          and ?x32.0 = "AtomicTExp ''number''"]) simp_all
  then have a': "(applySub_rel ^^ Suc 0) (?S, TVarTExp (makeTVar ''T1'')) (?S, ?T)"
    by auto
  have c: "check_rel (makeTVar ''T1'', ?U, TVarTExp (makeTVar ''T2'')) (makeTVar ''T1'', ?U, ?U)"
    by (rule check_rel.intros(1)) simp
  have e: "extendSub makeEmptySub (makeTVar ''T1'') (first [AtomicTExp ''number'']) = makeOk ?S"
    by (simp add: extendSub_def makeSub_def checkNoOccurrence_def makeEmptySub_def)
  have k: "combine_rel (?S, [], rest [AtomicTExp ''number''])
             (makeEmptySub, [makeTVar ''T1''], [AtomicTExp ''number''])"
    using e by (rule combine_rel.intros)
  have ne: "\<not> isEmptySub ?S" by simp
  show ?thesis
    using a' c k ne
      operations_terminate [where sub = "?S" and t = "?T" and sub' = "?S"
        and t' = "TVarTExp (makeTVar ''T1'')" and k = "Suc 0"
        and tvar = "makeTVar ''T1''" and te = "?U" and e = "?U"
        and tvar' = "makeTVar ''T1''" and te' = "?U" and e' = "TVarTExp (makeTVar ''T2'')"]
      operations_terminate [where sub = makeEmptySub and vs = "[makeTVar ''T1'']"
        and ts = "[AtomicTExp ''number'']"]
    by (simp del: relpowp.simps)
qed

text \<open>
  The claim as stated fails where it says that the recursion depth equals the depth of
  the expression tree: the procedure type (T1 -> number) has depth one, and applying
  the empty substitution to it returns at once, with no recursive call.
\<close>

theorem recursion_depth_counterexample:
  "isEmptySub makeEmptySub \<and>
   depthTExp (ProcTExp [TVarTExp (makeTVar ''T1'')] (AtomicTExp ''number'')) = 1 \<and>
   (\<forall>x. \<not> applySub_rel x
      (makeEmptySub, ProcTExp [TVarTExp (makeTVar ''T1'')] (AtomicTExp ''number'')))"
  by (simp add: applySub_empty_no_call makeEmptySub_def)

end
